theory Spec2Isabelle
  imports Complex_Main
begin

section \<open>Outcomes other than a value\<close>

text \<open>
  Exceptions of the Python source are values of \<open>error\<close>:
  \<^item> \<open>NotContiguous\<close>: the \<open>RuntimeError\<close> of \<open>Tensor.view\<close> on a tensor whose strides do
    not allow the requested view;
  \<^item> \<open>ShapeMismatch\<close>: the \<open>RuntimeError\<close> of \<open>Tensor.view\<close>, of \<open>torch.matmul\<close> or of an
    elementwise operation when the element counts or sizes do not fit;
  \<^item> \<open>EmptyCat\<close>: the \<open>RuntimeError\<close> of \<open>torch.cat\<close> on an empty list of tensors;
  \<^item> \<open>ValueError\<close>: the argument check of \<open>Normal\<close> (a standard deviation that is not
    positive);
  \<^item> \<open>AssertionError\<close>: the failed \<open>assert\<close> of the line search;
  \<^item> \<open>IndexError\<close>: an index tensor that points outside the indexed tensor;
  \<^item> \<open>NoneReturned\<close>: a function that falls off its end and hands \<open>None\<close> to a caller
    that computes with it;
  \<^item> \<open>External\<close>: an exception raised inside a collaborator (the environment, the actor
    network, the autodiff engine), which the callers in this file never catch.

  Tensor arithmetic does not raise on a zero divisor or on the square root of a negative
  number: it yields \<open>inf\<close> or \<open>nan\<close>.  The scalars of the optimizer's model are the real
  numbers, which have no such values, so the model stops at the operation that would
  produce one and reports it: \<open>ZeroDivisor l\<close> for the division labelled \<open>l\<close>,
  \<open>NegativeSqrt l\<close> for the square root labelled \<open>l\<close>.  What the program computes from an
  \<open>inf\<close> or a \<open>nan\<close> afterwards is outside the model, and so is rounding.
\<close>

datatype error =
    NotContiguous
  | ShapeMismatch
  | EmptyCat
  | ValueError
  | AssertionError
  | IndexError
  | NoneReturned
  | External
  | ZeroDivisor string
  | NegativeSqrt string

definition bind_err :: "error + 'a \<Rightarrow> ('a \<Rightarrow> error + 'b) \<Rightarrow> error + 'b" where
  "bind_err m f = (case m of Inl e \<Rightarrow> Inl e | Inr a \<Rightarrow> f a)"

text \<open>A list comprehension over a call that may raise: it stops at the first exception.\<close>

fun map_err :: "('a \<Rightarrow> error + 'b) \<Rightarrow> 'a list \<Rightarrow> error + 'b list" where
  "map_err f [] = Inr []"
| "map_err f (x # xs) =
     (case f x of
        Inl e \<Rightarrow> Inl e
      | Inr y \<Rightarrow> (case map_err f xs of Inl e \<Rightarrow> Inl e | Inr ys \<Rightarrow> Inr (y # ys)))"

section \<open>Flat parameter utilities (cpo.py, lines 31-114)\<close>

text \<open>
  A parameter block is a tensor: its size (the list of dimensions), its elements in
  row-major order, and whether its strides let \<open>view(-1)\<close> flatten it (\<open>tcontiguous\<close>: true
  of a contiguous block, false of a transposed matrix, say).  Nothing else of the strides
  matters to the functions below: \<open>copy_\<close> writes element by element whatever the strides
  of its destination are, and keeps them.

  The element type is left open, so that a statement about the blocks is a statement
  about the stored bit patterns, whatever they are.  All blocks of a model and the flat
  vector have this one element type and live on one device: the conversions that
  \<open>torch.cat\<close> and \<open>copy_\<close> make between different dtypes are not modelled.  A tensor of
  the program always holds as many elements as its size says (\<open>wf_tensor\<close>).
\<close>

record 'a tensor =
  tsize :: "nat list"
  tdata :: "'a list"
  tcontiguous :: bool

definition numel :: "'a tensor \<Rightarrow> nat" where
  "numel t = length (tdata t)"

definition wf_tensor :: "'a tensor \<Rightarrow> bool" where
  "wf_tensor t = (length (tdata t) = prod_list (tsize t))"

definition wf_model :: "'a tensor list \<Rightarrow> bool" where
  "wf_model model = list_all wf_tensor model"

text \<open>\<open>t.view(-1)\<close>: the one-dimensional view of a tensor; it raises on strides that do
  not allow it.\<close>

definition view_flat :: "'a tensor \<Rightarrow> error + 'a tensor" where
  "view_flat t =
     (if tcontiguous t
      then Inr \<lparr>tsize = [length (tdata t)], tdata = tdata t, tcontiguous = True\<rparr>
      else Inl NotContiguous)"

text \<open>
  \<open>new_param.view(params.size())\<close> on a slice of the flat vector: the same elements under
  another size; it raises when the element count is not the product of the size.
\<close>

definition view :: "'a list \<Rightarrow> nat list \<Rightarrow> error + 'a list" where
  "view xs sz = (if length xs = prod_list sz then Inr xs else Inl ShapeMismatch)"

text \<open>
  \<open>set_params\<close>: the loop over \<open>model.parameters()\<close> with the running \<open>index\<close>.
  \<open>params_length\<close> is \<open>len(params.view(-1))\<close>.  The slice
  \<open>new_params[index : index + params_length]\<close> is cut short at the end of the vector, as
  Python slices are.  \<open>params.data.copy_(new_param)\<close> overwrites the elements of the block
  and leaves its size and strides.  The blocks are overwritten in place one after the
  other, so the result carries the model as the loop leaves it, also when a \<open>view\<close>
  raises: the blocks before the failing one are already overwritten then.
\<close>

fun set_params_loop :: "nat \<Rightarrow> 'a tensor list \<Rightarrow> 'a list \<Rightarrow> 'a tensor list \<times> error option" where
  "set_params_loop index [] new_params = ([], None)"
| "set_params_loop index (params # rest) new_params =
     (case view_flat params of
        Inl e \<Rightarrow> (params # rest, Some e)
      | Inr flat \<Rightarrow>
          (let params_length = length (tdata flat);
               new_param = take params_length (drop index new_params)
           in case view new_param (tsize params) of
                Inl e \<Rightarrow> (params # rest, Some e)
              | Inr d \<Rightarrow>
                  (case set_params_loop (index + params_length) rest new_params of
                     (rest', r) \<Rightarrow> (params\<lparr>tdata := d\<rparr> # rest', r))))"

definition set_params :: "'a tensor list \<Rightarrow> 'a list \<Rightarrow> 'a tensor list \<times> error option" where
  "set_params model new_params = set_params_loop 0 model new_params"

text \<open>\<open>torch.cat\<close> of one-dimensional tensors; it rejects an empty list.\<close>

definition torch_cat :: "'a tensor list \<Rightarrow> error + 'a list" where
  "torch_cat ts = (if ts = [] then Inl EmptyCat else Inr (concat (map tdata ts)))"

text \<open>\<open>flatten\<close>: \<open>torch.cat([v.view(-1) for v in vecs])\<close>.\<close>

definition flatten :: "'a tensor list \<Rightarrow> error + 'a list" where
  "flatten vecs = bind_err (map_err view_flat vecs) torch_cat"

text \<open>\<open>get_flat_params\<close>: \<open>flatten([param.view(-1) for param in parameters])\<close>.\<close>

definition get_flat_params :: "'a tensor list \<Rightarrow> error + 'a list" where
  "get_flat_params parameterized_fun = bind_err (map_err view_flat parameterized_fun) flatten"

text \<open>The model's total parameter count.\<close>

definition param_count :: "'a tensor list \<Rightarrow> nat" where
  "param_count model = sum_list (map numel model)"

text \<open>
  The call \<open>set_params(model, get_flat_params(model))\<close>: the argument is evaluated first,
  and when it raises \<open>set_params\<close> is not entered and the model is as it was.
\<close>

definition roundtrip :: "'a tensor list \<Rightarrow> 'a tensor list \<times> error option" where
  "roundtrip model =
     (case get_flat_params model of
        Inl e \<Rightarrow> (model, Some e)
      | Inr flat_params \<Rightarrow> set_params model flat_params)"

section \<open>Scalars and vectors\<close>

type_synonym vec = "real list"

definition EPS :: real where
  "EPS = 1 / 10 ^ 8"

text \<open>\<open>self.max_kl = 0.02\<close>, set in the constructor and never changed.\<close>

definition max_kl :: real where
  "max_kl = 2 / 100"

text \<open>A division and a square root of tensors; the label names the place in the source.\<close>

definition fdiv :: "string \<Rightarrow> real \<Rightarrow> real \<Rightarrow> error + real" where
  "fdiv l x y = (if y = 0 then Inl (ZeroDivisor l) else Inr (x / y))"

definition fsqrt :: "string \<Rightarrow> real \<Rightarrow> error + real" where
  "fsqrt l x = (if x < 0 then Inl (NegativeSqrt l) else Inr (sqrt x))"


text \<open>
  An elementwise operation on two one-dimensional tensors with broadcasting: sizes that
  are equal, or one of them 1; anything else raises.  A Python number or a
  zero-dimensional tensor is written as a vector of one element, which broadcasts in the
  same way.
\<close>

definition bcast2 :: "(real \<Rightarrow> real \<Rightarrow> real) \<Rightarrow> vec \<Rightarrow> vec \<Rightarrow> error + vec" where
  "bcast2 f a b =
     (if length a = length b then Inr (map2 f a b)
      else if length a = 1 then Inr (map (f (hd a)) b)
      else if length b = 1 then Inr (map (\<lambda>x. f x (hd b)) a)
      else Inl ShapeMismatch)"





section \<open>Conjugate-gradient solver (cpo.py, lines 519-551)\<close>



section \<open>Trust-region dual optimizer (cpo.py, lines 415-468)\<close>






text \<open>
  \<open>proj = lambda x, L : max(L[0], min(L[1], x))\<close>.  An interval is its lower bound and its
  upper bound, \<open>None\<close> for \<open>np.inf\<close>.
\<close>

definition proj :: "real \<Rightarrow> real \<times> real option \<Rightarrow> real" where
  "proj x L = max (fst L) (case snd L of None \<Rightarrow> x | Some hi \<Rightarrow> min hi x)"

definition f_a :: "real \<Rightarrow> real \<Rightarrow> real \<Rightarrow> real \<Rightarrow> real \<Rightarrow> real \<Rightarrow> error + real" where
  "f_a A B r c s lam =
     bind_err (fdiv ''f_a'' A (lam + EPS)) (\<lambda>t.
     bind_err (fdiv ''f_a_s'' (r * c) (s + EPS)) (\<lambda>u.
       Inr (- (1 / 2) * (t + B * lam) - u)))"

definition f_b :: "real \<Rightarrow> real \<Rightarrow> error + real" where
  "f_b q lam =
     bind_err (fdiv ''f_b'' q (lam + EPS)) (\<lambda>t. Inr (- (1 / 2) * (t + 2 * max_kl * lam)))"

text \<open>Lines 451-466: the multipliers \<open>(lam, nu)\<close> of the case.\<close>

definition multipliers ::
  "nat \<Rightarrow> real \<Rightarrow> real \<Rightarrow> real \<Rightarrow> real \<Rightarrow> real \<Rightarrow> real \<Rightarrow> error + real \<times> real" where
  "multipliers optim_case q r s c A B =
     (if optim_case \<in> {3, 4} then
        bind_err (fdiv ''q_kl'' q (2 * max_kl)) (\<lambda>t.
        bind_err (fsqrt ''lam'' t) (\<lambda>lam. Inr (lam, 0)))
      else if optim_case \<in> {1, 2} then
        bind_err (fdiv ''r_c'' r c) (\<lambda>rc.
          let LA0 = (0, Some rc); LB0 = (rc, None);
              LA = (if c < 0 then LA0 else LB0);
              LB = (if c < 0 then LB0 else LA0) in
          bind_err (fdiv ''A_B'' A B) (\<lambda>ab.
          bind_err (fsqrt ''lam_a'' ab) (\<lambda>sa.
          bind_err (fdiv ''q_kl'' q (2 * max_kl)) (\<lambda>t.
          bind_err (fsqrt ''lam_b'' t) (\<lambda>sb.
            let lam_a = proj sa LA; lam_b = proj sb LB in
            bind_err (f_a A B r c s lam_a) (\<lambda>fa.
            bind_err (f_b q lam_b) (\<lambda>fb.
              let lam = (if fa \<ge> fb then lam_a else lam_b) in
              bind_err (fdiv ''nu'' (max 0 (lam * c - r)) (s + EPS)) (\<lambda>nu.
                Inr (lam, nu)))))))))
      else
        bind_err (fdiv ''nu0'' (2 * max_kl) (s + EPS)) (\<lambda>t.
        bind_err (fsqrt ''nu0'' t) (\<lambda>nu. Inr (0, nu))))"

text \<open>Line 468: \<open>x = (1./(lam+EPS)) * (v + nu * w) if optim_case > 0 else nu * w\<close>.\<close>

definition direction :: "nat \<Rightarrow> real \<Rightarrow> real \<Rightarrow> vec \<Rightarrow> vec \<Rightarrow> error + vec" where
  "direction optim_case lam nu v w =
     (if optim_case > 0
      then
        bind_err (fdiv ''x'' 1 (lam + EPS)) (\<lambda>k.
        bind_err (bcast2 (+) v (map (\<lambda>wi. nu * wi) w)) (\<lambda>u.
          Inr (map (\<lambda>ui. k * ui) u)))
      else Inr (map (\<lambda>wi. nu * wi) w))"


text \<open>
  The specification's wording of the multiplier step, to compare \<open>multipliers\<close> with:
  the two intervals \<open>[0, r/c]\<close> and \<open>[r/c, +inf)\<close>, swapped when \<open>c \<ge> 0\<close>; clamping a
  candidate into the bounds of an interval; the two closed-form dual values.
\<close>

definition spec_interval_A :: "real \<Rightarrow> real \<Rightarrow> real \<times> real option" where
  "spec_interval_A c rc = (if c < 0 then (0, Some rc) else (rc, None))"

definition spec_interval_B :: "real \<Rightarrow> real \<Rightarrow> real \<times> real option" where
  "spec_interval_B c rc = (if c < 0 then (rc, None) else (0, Some rc))"

fun spec_clamp :: "real \<times> real option \<Rightarrow> real \<Rightarrow> real" where
  "spec_clamp (lo, None) x = max lo x"
| "spec_clamp (lo, Some hi) x = max lo (min hi x)"

definition spec_dual_A :: "real \<Rightarrow> real \<Rightarrow> real \<Rightarrow> real \<Rightarrow> real \<Rightarrow> real \<Rightarrow> real" where
  "spec_dual_A A B r c s lam = - (1 / 2) * (A / (lam + EPS) + B * lam) - r * c / (s + EPS)"

definition spec_dual_B :: "real \<Rightarrow> real \<Rightarrow> real" where
  "spec_dual_B q lam = - (1 / 2) * (q / (lam + EPS) + 2 * max_kl * lam)"

section \<open>Rollout bookkeeping (cpo.py, lines 235-301)\<close>















section \<open>Environment substrates (env_wrappers.py, lines 324-341 and 440-471)\<close>











section \<open>Constrained line search (cpo.py, lines 360-369 and 470-506)\<close>

text \<open>
  What \<open>self.actor.evaluate(obs_batch, states_batch, actions_batch)\<close> returns for the
  minibatch, as far as the search uses it: the log-probabilities of the actions (one per
  sample) and the means and standard deviations of the action distribution (one row per
  sample).  The actor network is a collaborator; for a fixed minibatch its evaluation is
  a function of its parameter blocks, which may raise.
\<close>

record evaluation =
  logprob :: vec
  ev_mean :: "vec list"
  ev_std :: "vec list"

text \<open>
  The divergence of one normal distribution from another, as
  \<open>torch.distributions.kl.kl_divergence\<close> computes it for two \<open>Normal\<close> objects.  The
  standard deviations are positive when it is called, \<open>Normal\<close> has checked that.
\<close>

definition kl_normal :: "real \<Rightarrow> real \<Rightarrow> real \<Rightarrow> real \<Rightarrow> real" where
  "kl_normal m1 s1 m2 s2 =
     (let var_ratio = (s1 / s2) ^ 2; t1 = ((m1 - m2) / s2) ^ 2
      in (1 / 2) * (var_ratio + t1 - 1 - ln var_ratio))"

definition positive :: "vec list \<Rightarrow> bool" where
  "positive std = list_all (list_all (\<lambda>s. 0 < s)) std"

text \<open>
  \<open>gaussian_kl\<close> (lines 22-28): the two \<open>Normal\<close> objects are built in turn, each checking
  that mean and standard deviation have one shape and that the standard deviation is
  positive; the divergence is taken element by element and summed over each row.
  Broadcasting between tensors of different shapes is not modelled, it is an error
  here.
\<close>

definition gaussian_kl :: "vec list \<Rightarrow> vec list \<Rightarrow> vec list \<Rightarrow> vec list \<Rightarrow> error + vec" where
  "gaussian_kl mean1 std1 mean2 std2 =
     (if map length mean1 \<noteq> map length std1 then Inl ShapeMismatch
      else if \<not> positive std1 then Inl ValueError
      else if map length mean2 \<noteq> map length std2 then Inl ShapeMismatch
      else if \<not> positive std2 then Inl ValueError
      else if map length mean1 \<noteq> map length mean2 then Inl ShapeMismatch
      else Inr (map (\<lambda>((m1, s1), (m2, s2)).
                  sum_list (map (\<lambda>((a, b), (c, d)). kl_normal a b c d) (zip (zip m1 s1) (zip m2 s2))))
                (zip (zip mean1 std1) (zip mean2 std2))))"

text \<open>\<open>.mean()\<close> of a tensor; of an empty one it is \<open>nan\<close>.\<close>

definition mean_of :: "string \<Rightarrow> vec \<Rightarrow> error + real" where
  "mean_of l xs = fdiv l (sum_list xs) (real (length xs))"

text \<open>
  What the closure \<open>set_and_eval\<close> reads from the enclosing \<open>update\<close>: the minibatch, the
  values computed before the step, the case and direction of the dual step, and the
  parameters before the step.  The batches of advantages and old log-probabilities are
  the squeezed ones.
\<close>

record search_ctx =
  sc_evaluate :: "real tensor list \<Rightarrow> error + evaluation"
  sc_current_policy :: vec
  sc_x :: vec
  sc_mean_batch :: "vec list"
  sc_std_batch :: "vec list"
  sc_old_logp :: vec
  sc_adv :: vec
  sc_cadv :: vec
  sc_surrogate_loss :: real
  sc_surrogate_cost_loss :: real
  sc_optim_case :: nat
  sc_c :: real

text \<open>
  Lines 476-485: the recomputed mean divergence \<open>kl_value\<close>, which the \<open>assert\<close> wants
  non-negative, the surrogate return \<open>pi_l_new\<close> and the surrogate cost \<open>surr_cost\<close> at
  the parameters the actor holds.
\<close>

definition trial_values :: "search_ctx \<Rightarrow> real tensor list \<Rightarrow> error + real \<times> real \<times> real" where
  "trial_values ctx actor =
     bind_err (sc_evaluate ctx actor) (\<lambda>ev.
     bind_err (gaussian_kl (ev_mean ev) (ev_std ev) (sc_mean_batch ctx) (sc_std_batch ctx)) (\<lambda>kl_rows.
     bind_err (mean_of ''kl_value'' kl_rows) (\<lambda>kl_value.
       if \<not> kl_value \<ge> 0 then Inl AssertionError
       else
         bind_err (bcast2 (-) (logprob ev) (sc_old_logp ctx)) (\<lambda>diff.
           let ratio_eval = map exp diff in
           bind_err (bcast2 (*) ratio_eval (sc_cadv ctx)) (\<lambda>sc.
           bind_err (mean_of ''surr_cost'' sc) (\<lambda>surr_cost.
           bind_err (bcast2 (*) ratio_eval (sc_adv ctx)) (\<lambda>sa.
           bind_err (mean_of ''pi_l_new'' sa) (\<lambda>pi_l_new.
             Inr (kl_value, pi_l_new, surr_cost)))))))))"

text \<open>Line 491: the three predicates of acceptance.\<close>

definition accept :: "search_ctx \<Rightarrow> real \<times> real \<times> real \<Rightarrow> bool" where
  "accept ctx t =
     (case t of (kl_value, pi_l_new, surr_cost) \<Rightarrow>
        kl_value \<le> max_kl \<and>
        (if sc_optim_case ctx > 1 then pi_l_new \<ge> sc_surrogate_loss ctx else True) \<and>
        surr_cost - sc_surrogate_cost_loss ctx \<le> max (- sc_c ctx) 0)"

text \<open>
  \<open>set_and_eval(step)\<close>, lines 472-494: it writes \<open>current_policy - step * x\<close> into the actor
  and says whether the step is acceptable.  The result carries the actor as the call
  leaves it.
\<close>

definition set_and_eval ::
  "search_ctx \<Rightarrow> real \<Rightarrow> real tensor list \<Rightarrow> error + bool \<times> real tensor list" where
  "set_and_eval ctx step actor =
     bind_err (bcast2 (-) (sc_current_policy ctx) (map (\<lambda>d. step * d) (sc_x ctx))) (\<lambda>new_policy.
       case set_params actor new_policy of
         (actor', Some e) \<Rightarrow> Inl e
       | (actor', None) \<Rightarrow>
           bind_err (trial_values ctx actor') (\<lambda>t. Inr (accept ctx t, actor')))"

text \<open>
  \<open>np.linspace(0, 0.01, 10, endpoint=True)\<close>, reversed (lines 496-498): ten evenly spaced
  step sizes from 0.01 down to 0.
\<close>

definition pi_linear_search_list :: "real list" where
  "pi_linear_search_list = rev (map (\<lambda>i. 0 + real i * ((1 / 100 - 0) / 9)) [0..<10])"

text \<open>
  The loop of lines 499-502.  The result is the candidate at which the loop broke off,
  \<open>None\<close> when it ran to its end, and the actor as the loop leaves it.
\<close>

fun search_loop ::
  "search_ctx \<Rightarrow> real list \<Rightarrow> real tensor list \<Rightarrow> error + real option \<times> real tensor list" where
  "search_loop ctx [] actor = Inr (None, actor)"
| "search_loop ctx (e # es) actor =
     (case set_and_eval ctx e actor of
        Inl err \<Rightarrow> Inl err
      | Inr (ok, actor') \<Rightarrow> if ok then Inr (Some e, actor') else search_loop ctx es actor')"

text \<open>
  Lines 496-506: the search and the final write of \<open>current_policy - step_len * x\<close>, with
  \<open>step_len = 0\<close> unless the loop broke off at a candidate.
\<close>

definition line_search ::
  "search_ctx \<Rightarrow> real tensor list \<Rightarrow> error + real \<times> real tensor list" where
  "line_search ctx actor =
     bind_err (search_loop ctx pi_linear_search_list actor) (\<lambda>(found, actor1).
       let step_len = (case found of None \<Rightarrow> 0 | Some e \<Rightarrow> e) in
       bind_err (bcast2 (-) (sc_current_policy ctx) (map (\<lambda>d. step_len * d) (sc_x ctx))) (\<lambda>new_policy.
         case set_params actor1 new_policy of
           (actor2, Some e) \<Rightarrow> Inl e
         | (actor2, None) \<Rightarrow> Inr (step_len, actor2)))"


text \<open>
  Two states of a model have one layout when their blocks agree in size and strides:
  \<open>set_params\<close> changes the elements of the blocks only.
\<close>

definition same_layout :: "'a tensor list \<Rightarrow> 'a tensor list \<Rightarrow> bool" where
  "same_layout a b = (map tsize a = map tsize b \<and> map tcontiguous a = map tcontiguous b)"




section \<open>Properties of the flat parameter utilities\<close>

lemma bind_err_simps [simp]:
  "bind_err (Inl e) f = Inl e"
  "bind_err (Inr a) f = f a"
  by (simp_all add: bind_err_def)

lemma bind_err_eq_Inr:
  "bind_err m f = Inr y \<longleftrightarrow> (\<exists>a. m = Inr a \<and> f a = Inr y)"
  by (cases m) simp_all

lemma map_err_view_flat_contiguous:
  "list_all tcontiguous model \<Longrightarrow>
   map_err view_flat model =
     Inr (map (\<lambda>t. \<lparr>tsize = [length (tdata t)], tdata = tdata t, tcontiguous = True\<rparr>) model)"
  by (induction model) (simp_all add: view_flat_def)

lemma map_err_view_flat_noncontiguous:
  "\<not> list_all tcontiguous model \<Longrightarrow> map_err view_flat model = Inl NotContiguous"
proof (induction model)
  case Nil
  then show ?case by simp
next
  case (Cons p rest)
  show ?case
  proof (cases "tcontiguous p")
    case True
    with Cons.prems have "\<not> list_all tcontiguous rest" by simp
    then have "map_err view_flat rest = Inl NotContiguous" by (rule Cons.IH)
    moreover from True have "\<exists>y. view_flat p = Inr y" by (simp add: view_flat_def)
    ultimately show ?thesis by auto
  next
    case False
    then show ?thesis by (simp add: view_flat_def)
  qed
qed

lemma get_flat_params_contiguous:
  assumes "list_all tcontiguous model" and "model \<noteq> []"
  shows "get_flat_params model = Inr (concat (map tdata model))"
proof -
  let ?views = "map (\<lambda>t. \<lparr>tsize = [length (tdata t)], tdata = tdata t, tcontiguous = True\<rparr>) model"
  have views: "map_err view_flat model = Inr ?views"
    using assms(1) by (rule map_err_view_flat_contiguous)
  have "list_all tcontiguous ?views"
    by (simp add: list_all_iff)
  then have again: "map_err view_flat ?views = Inr ?views"
    by (simp add: map_err_view_flat_contiguous o_def)
  have "map tdata ?views = map tdata model"
    by simp
  with assms(2) have "torch_cat ?views = Inr (concat (map tdata model))"
    by (simp add: torch_cat_def o_def)
  with views again show ?thesis
    by (simp add: get_flat_params_def flatten_def)
qed

lemma get_flat_params_raises:
  assumes "\<not> list_all tcontiguous model \<or> model = []"
  shows "\<exists>e. get_flat_params model = Inl e"
proof (cases "list_all tcontiguous model")
  case True
  with assms have "model = []" by simp
  then show ?thesis
    by (simp add: get_flat_params_def flatten_def torch_cat_def)
next
  case False
  then have "map_err view_flat model = Inl NotContiguous"
    by (rule map_err_view_flat_noncontiguous)
  then show ?thesis
    by (simp add: get_flat_params_def)
qed

lemma set_params_loop_noncontiguous:
  "\<not> list_all tcontiguous model \<Longrightarrow>
   \<exists>e. snd (set_params_loop index model new_params) = Some e \<and> e \<in> {NotContiguous, ShapeMismatch}"
proof (induction model arbitrary: index)
  case Nil
  then show ?case by simp
next
  case (Cons p rest)
  show ?case
  proof (cases "tcontiguous p")
    case False
    then show ?thesis by (simp add: view_flat_def)
  next
    case True
    with Cons.prems have "\<not> list_all tcontiguous rest" by simp
    from Cons.IH [OF this, of "index + length (tdata p)"]
    obtain e where e: "snd (set_params_loop (index + length (tdata p)) rest new_params) = Some e"
      "e \<in> {NotContiguous, ShapeMismatch}"
      by blast
    show ?thesis
    proof (cases "view (take (length (tdata p)) (drop index new_params)) (tsize p)")
      case (Inl e')
      then have "e' = ShapeMismatch" by (simp add: view_def split: if_splits)
      with Inl True show ?thesis by (simp add: view_flat_def)
    next
      case (Inr d)
      with True e show ?thesis
        by (auto simp add: view_flat_def split: prod.splits)
    qed
  qed
qed

lemma set_params_loop_short:
  "wf_model model \<Longrightarrow> list_all tcontiguous model \<Longrightarrow>
   index \<le> length new_params \<Longrightarrow> length new_params < index + param_count model \<Longrightarrow>
   snd (set_params_loop index model new_params) = Some ShapeMismatch"
proof (induction model arbitrary: index)
  case Nil
  then show ?case by (simp add: param_count_def)
next
  case (Cons p rest)
  from Cons.prems have wf: "length (tdata p) = prod_list (tsize p)" "wf_model rest"
    and contig: "tcontiguous p" "list_all tcontiguous rest"
    by (simp_all add: wf_model_def wf_tensor_def)
  show ?case
  proof (cases "length new_params < index + length (tdata p)")
    case True
    with Cons.prems(3) wf(1)
    have "view (take (length (tdata p)) (drop index new_params)) (tsize p) = Inl ShapeMismatch"
      by (simp add: view_def)
    with contig(1) show ?thesis by (simp add: view_flat_def)
  next
    case False
    with wf(1) have fits: "view (take (length (tdata p)) (drop index new_params)) (tsize p)
        = Inr (take (length (tdata p)) (drop index new_params))"
      by (simp add: view_def)
    from Cons.prems(4) have "length new_params < (index + length (tdata p)) + param_count rest"
      by (simp add: param_count_def numel_def)
    moreover from False have "index + length (tdata p) \<le> length new_params" by simp
    ultimately have "snd (set_params_loop (index + length (tdata p)) rest new_params) = Some ShapeMismatch"
      using wf(2) contig(2) by (intro Cons.IH)
    with fits contig(1) show ?thesis
      by (auto simp add: view_flat_def Let_def split: prod.splits)
  qed
qed

lemma set_params_loop_long:
  "wf_model model \<Longrightarrow> list_all tcontiguous model \<Longrightarrow>
   index + param_count model \<le> length new_params \<Longrightarrow>
   set_params_loop index model new_params = (model', r) \<Longrightarrow>
   r = None \<and> map tsize model' = map tsize model \<and>
   map tcontiguous model' = map tcontiguous model \<and> wf_model model' \<and>
   concat (map tdata model') = take (param_count model) (drop index new_params)"
proof (induction model arbitrary: index model' r)
  case Nil
  then show ?case by (simp add: param_count_def wf_model_def)
next
  case (Cons p rest)
  from Cons.prems have wf: "length (tdata p) = prod_list (tsize p)" "wf_model rest"
    and contig: "tcontiguous p" "list_all tcontiguous rest"
    by (simp_all add: wf_model_def wf_tensor_def)
  let ?n = "length (tdata p)"
  let ?slice = "take ?n (drop index new_params)"
  from Cons.prems(3) have le: "index + ?n + param_count rest \<le> length new_params"
    by (simp add: param_count_def numel_def)
  then have len: "length ?slice = ?n"
    by simp
  with wf(1) have fits: "view ?slice (tsize p) = Inr ?slice"
    by (simp add: view_def)
  obtain rest' r' where rec: "set_params_loop (index + ?n) rest new_params = (rest', r')"
    by (cases "set_params_loop (index + ?n) rest new_params")
  from Cons.IH [OF wf(2) contig(2) le rec] have ih:
    "r' = None" "map tsize rest' = map tsize rest" "map tcontiguous rest' = map tcontiguous rest"
    "wf_model rest'"
    "concat (map tdata rest') = take (param_count rest) (drop (index + ?n) new_params)"
    by simp_all
  from Cons.prems(4) fits rec contig(1) have m': "model' = p\<lparr>tdata := ?slice\<rparr> # rest'"
    and r: "r = r'"
    by (simp_all add: view_flat_def)
  have dd: "drop (index + ?n) new_params = drop ?n (drop index new_params)"
    by (simp add: add.commute)
  have "?slice @ take (param_count rest) (drop (index + ?n) new_params)
        = take (?n + param_count rest) (drop index new_params)"
    unfolding dd by (rule take_add [symmetric])
  with ih m' r len wf(1) show ?case
    by (simp add: param_count_def wf_model_def wf_tensor_def numel_def)
qed

lemma set_params_loop_roundtrip:
  "wf_model model \<Longrightarrow> list_all tcontiguous model \<Longrightarrow>
   set_params_loop (length pre) model (pre @ concat (map tdata model) @ post) = (model, None)"
proof (induction model arbitrary: pre)
  case Nil
  then show ?case by simp
next
  case (Cons p rest)
  from Cons.prems have wf: "length (tdata p) = prod_list (tsize p)" "wf_model rest"
    and contig: "tcontiguous p" "list_all tcontiguous rest"
    by (simp_all add: wf_model_def wf_tensor_def)
  have block: "view (tdata p) (tsize p) = Inr (tdata p)"
    using wf(1) by (simp add: view_def)
  have "set_params_loop (length (pre @ tdata p)) rest ((pre @ tdata p) @ concat (map tdata rest) @ post)
        = (rest, None)"
    using wf(2) contig(2) by (rule Cons.IH)
  with contig(1) show ?case
    by (simp add: view_flat_def Let_def block)
qed

text \<open>
  C6.  Flatten/restore round trip.  For every model, whatever the number, the sizes and
  the strides of its parameter blocks, the call
  \<open>set_params(model, get_flat_params(model))\<close> leaves every block as it was before the
  call, size, strides and elements.  The call returns normally exactly when the model has
  at least one block and every block can be flattened by \<open>view(-1)\<close>; otherwise
  \<open>get_flat_params\<close> raises before anything is written.
\<close>

theorem flatten_restore_roundtrip:
  assumes "wf_model model"
  shows "fst (roundtrip model) = model \<and>
         (snd (roundtrip model) = None \<longleftrightarrow> model \<noteq> [] \<and> list_all tcontiguous model)"
proof (cases "model \<noteq> [] \<and> list_all tcontiguous model")
  case True
  then have flat: "get_flat_params model = Inr (concat (map tdata model))"
    by (simp add: get_flat_params_contiguous)
  have "set_params_loop (length ([] :: 'a list)) model ([] @ concat (map tdata model) @ []) = (model, None)"
    using assms True by (intro set_params_loop_roundtrip) simp_all
  then have "set_params model (concat (map tdata model)) = (model, None)"
    by (simp add: set_params_def)
  with flat True show ?thesis
    by (simp add: roundtrip_def)
next
  case False
  then have "\<not> list_all tcontiguous model \<or> model = []" by blast
  then obtain e where "get_flat_params model = Inl e"
    using get_flat_params_raises by blast
  with False show ?thesis
    by (simp add: roundtrip_def)
qed

theorem flatten_restore_roundtrip_witness:
  "wf_model
     [\<lparr>tsize = [2, 1], tdata = [5, 6 :: int], tcontiguous = True\<rparr>,
      \<lparr>tsize = [], tdata = [7], tcontiguous = True\<rparr>] \<and>
   roundtrip
     [\<lparr>tsize = [2, 1], tdata = [5, 6 :: int], tcontiguous = True\<rparr>,
      \<lparr>tsize = [], tdata = [7], tcontiguous = True\<rparr>]
   = ([\<lparr>tsize = [2, 1], tdata = [5, 6], tcontiguous = True\<rparr>,
       \<lparr>tsize = [], tdata = [7], tcontiguous = True\<rparr>], None) \<and>
   wf_model [\<lparr>tsize = [3, 2], tdata = [0, 3, 1, 4, 2, 5 :: int], tcontiguous = False\<rparr>] \<and>
   fst (roundtrip [\<lparr>tsize = [3, 2], tdata = [0, 3, 1, 4, 2, 5 :: int], tcontiguous = False\<rparr>])
   = [\<lparr>tsize = [3, 2], tdata = [0, 3, 1, 4, 2, 5], tcontiguous = False\<rparr>] \<and>
   snd (roundtrip [\<lparr>tsize = [3, 2], tdata = [0, 3, 1, 4, 2, 5 :: int], tcontiguous = False\<rparr>])
   \<noteq> None"
proof -
  let ?m = "[\<lparr>tsize = [2, 1], tdata = [5, 6 :: int], tcontiguous = True\<rparr>,
             \<lparr>tsize = [], tdata = [7], tcontiguous = True\<rparr>]"
  let ?t = "[\<lparr>tsize = [3, 2], tdata = [0, 3, 1, 4, 2, 5 :: int], tcontiguous = False\<rparr>]"
  have wf: "wf_model ?m"
    by (simp add: wf_model_def wf_tensor_def)
  have wt: "wf_model ?t"
    by (simp add: wf_model_def wf_tensor_def)
  from flatten_restore_roundtrip [OF wf] have "fst (roundtrip ?m) = ?m" "snd (roundtrip ?m) = None"
    by simp_all
  then have "roundtrip ?m = (?m, None)"
    by (simp add: prod_eq_iff)
  moreover from flatten_restore_roundtrip [OF wt]
  have "fst (roundtrip ?t) = ?t" "snd (roundtrip ?t) \<noteq> None"
    by simp_all
  ultimately show ?thesis
    using wf wt by simp
qed

text \<open>
  C8, counterexample.  A vector longer than the parameter count, for a model of one
  contiguous block of two elements: \<open>set_params\<close> returns normally, writes the first two
  elements and ignores the third.
\<close>

theorem set_params_longer_vector_accepted:
  "length [7, 8, 9 :: int] \<noteq> param_count [\<lparr>tsize = [2], tdata = [1, 2 :: int], tcontiguous = True\<rparr>] \<and>
   set_params [\<lparr>tsize = [2], tdata = [1, 2 :: int], tcontiguous = True\<rparr>] [7, 8, 9]
     = ([\<lparr>tsize = [2], tdata = [7, 8], tcontiguous = True\<rparr>], None)"
  by (simp add: param_count_def numel_def set_params_def view_flat_def view_def Let_def)

text \<open>
  C8, amended.  \<open>set_params\<close> cuts the vector into consecutive ranges, one per block in
  the model's order, each as long as its block, and gives every block its range under
  the block's own size.  It has no check of the vector's length.  It raises, with the
  \<open>RuntimeError\<close> of a \<open>view\<close>, exactly when some block cannot be flattened by \<open>view(-1)\<close> or
  the vector is shorter than the model's parameter count.  Otherwise it returns normally:
  the blocks then hold the first \<open>param_count model\<close> elements of the vector in order, and
  what follows them in a longer vector is ignored.
\<close>

theorem set_params_slices_or_raises:
  assumes "wf_model model"
  shows "(snd (set_params model new_params) = None \<longleftrightarrow>
            list_all tcontiguous model \<and> param_count model \<le> length new_params) \<and>
         (list_all tcontiguous model \<and> length new_params < param_count model \<longrightarrow>
            snd (set_params model new_params) = Some ShapeMismatch) \<and>
         (list_all tcontiguous model \<and> param_count model \<le> length new_params \<longrightarrow>
            map tsize (fst (set_params model new_params)) = map tsize model \<and>
            map tcontiguous (fst (set_params model new_params)) = map tcontiguous model \<and>
            wf_model (fst (set_params model new_params)) \<and>
            concat (map tdata (fst (set_params model new_params)))
              = take (param_count model) new_params)"
proof -
  have short: "snd (set_params model new_params) = Some ShapeMismatch"
    if "list_all tcontiguous model" "length new_params < param_count model"
    using set_params_loop_short [of model 0 new_params] assms that
    by (simp add: set_params_def)
  have long: "snd (set_params model new_params) = None \<and>
      map tsize (fst (set_params model new_params)) = map tsize model \<and>
      map tcontiguous (fst (set_params model new_params)) = map tcontiguous model \<and>
      wf_model (fst (set_params model new_params)) \<and>
      concat (map tdata (fst (set_params model new_params))) = take (param_count model) new_params"
    if c: "list_all tcontiguous model" and le: "param_count model \<le> length new_params"
  proof -
    obtain model' r where res: "set_params_loop 0 model new_params = (model', r)"
      by (cases "set_params_loop 0 model new_params")
    from le have "0 + param_count model \<le> length new_params" by simp
    from set_params_loop_long [OF assms c this res] res show ?thesis
      by (simp add: set_params_def)
  qed
  have bad: "snd (set_params model new_params) \<noteq> None" if "\<not> list_all tcontiguous model"
    using set_params_loop_noncontiguous [OF that, of 0 new_params]
    by (auto simp add: set_params_def)
  show ?thesis
  proof (intro conjI impI iffI)
    assume "snd (set_params model new_params) = None"
    with bad show "list_all tcontiguous model" by blast
    then show "param_count model \<le> length new_params"
      using short \<open>snd (set_params model new_params) = None\<close> by fastforce
  qed (use short long in simp_all)
qed

theorem set_params_slices_or_raises_witness:
  "wf_model [\<lparr>tsize = [2], tdata = [1, 2 :: int], tcontiguous = True\<rparr>] \<and>
   snd (set_params [\<lparr>tsize = [2], tdata = [1, 2 :: int], tcontiguous = True\<rparr>] [7]) = Some ShapeMismatch \<and>
   snd (set_params [\<lparr>tsize = [2], tdata = [1, 2 :: int], tcontiguous = True\<rparr>] [7, 8]) = None \<and>
   concat (map tdata (fst (set_params [\<lparr>tsize = [2], tdata = [1, 2 :: int], tcontiguous = True\<rparr>] [7, 8])))
     = [7, 8] \<and>
   wf_model [\<lparr>tsize = [1, 2], tdata = [1, 2 :: int], tcontiguous = False\<rparr>] \<and>
   snd (set_params [\<lparr>tsize = [1, 2], tdata = [1, 2 :: int], tcontiguous = False\<rparr>] [7, 8]) \<noteq> None"
proof -
  let ?m = "[\<lparr>tsize = [2], tdata = [1, 2 :: int], tcontiguous = True\<rparr>]"
  let ?t = "[\<lparr>tsize = [1, 2], tdata = [1, 2 :: int], tcontiguous = False\<rparr>]"
  have wf: "wf_model ?m" and wt: "wf_model ?t"
    by (simp_all add: wf_model_def wf_tensor_def)
  have c: "list_all tcontiguous ?m" and n: "\<not> list_all tcontiguous ?t"
    by simp_all
  have cnt: "param_count ?m = 2"
    by (simp add: param_count_def numel_def)
  from set_params_slices_or_raises [OF wf, of "[7]"] c cnt
  have a: "snd (set_params ?m [7]) = Some ShapeMismatch"
    by simp
  from set_params_slices_or_raises [OF wf, of "[7, 8]"] c cnt
  have b: "snd (set_params ?m [7, 8]) = None"
    "concat (map tdata (fst (set_params ?m [7, 8]))) = [7, 8]"
    by simp_all
  from set_params_slices_or_raises [OF wt, of "[7, 8]"] n
  have d: "snd (set_params ?t [7, 8]) \<noteq> None"
    by simp
  from wf wt a b d show ?thesis
    by simp
qed

section \<open>Properties of the dual optimizer\<close>

lemma fdiv_eq_Inr: "fdiv l x y = Inr z \<longleftrightarrow> y \<noteq> 0 \<and> z = x / y"
  by (auto simp add: fdiv_def)

lemma fsqrt_eq_Inr: "fsqrt l x = Inr z \<longleftrightarrow> 0 \<le> x \<and> z = sqrt x"
  by (auto simp add: fsqrt_def)

lemma EPS_pos: "0 < EPS"
  by (simp add: EPS_def)

lemma proj_spec_clamp: "proj x L = spec_clamp L x"
  by (cases L; cases "snd L") (simp_all add: proj_def)

lemma spec_clamp_nonneg: "0 \<le> x \<Longrightarrow> 0 \<le> spec_clamp (spec_interval_A c rc) x \<and> 0 \<le> spec_clamp (spec_interval_B c rc) x"
  by (simp add: spec_interval_A_def spec_interval_B_def max_def)

lemma spec_clamp_inside:
  "lo \<le> hi \<Longrightarrow> lo \<le> spec_clamp (lo, Some hi) x \<and> spec_clamp (lo, Some hi) x \<le> hi"
  by (simp add: max_def min_def)

lemma f_a_eq_Inr:
  "f_a A B r c s lam = Inr y \<longleftrightarrow> lam + EPS \<noteq> 0 \<and> s + EPS \<noteq> 0 \<and> y = spec_dual_A A B r c s lam"
  by (auto simp add: f_a_def bind_err_eq_Inr fdiv_eq_Inr spec_dual_A_def)

lemma f_b_eq_Inr:
  "f_b q lam = Inr y \<longleftrightarrow> lam + EPS \<noteq> 0 \<and> y = spec_dual_B q lam"
  by (auto simp add: f_b_def bind_err_eq_Inr fdiv_eq_Inr spec_dual_B_def)





text \<open>
  The multiplier step returns a value whenever the values it divides by and takes roots
  of allow it: for the cases 1 and 2, when \<open>c\<close>, \<open>B\<close> and \<open>s + EPS\<close> are not zero and
  \<open>A / B\<close> and \<open>q\<close> are not negative.
\<close>

lemma multipliers_12_returns:
  assumes "k \<in> {1, 2}" "c \<noteq> 0" "B \<noteq> 0" "0 \<le> A / B" "0 \<le> q" "s + EPS \<noteq> 0"
  shows "\<exists>lam nu. multipliers k q r s c A B = Inr (lam, nu)"
proof -
  from assms(1) have k': "k \<notin> {3, 4}" by auto
  let ?la = "spec_clamp (spec_interval_A c (r / c)) (sqrt (A / B))"
  let ?lb = "spec_clamp (spec_interval_B c (r / c)) (sqrt (q / (2 * max_kl)))"
  have ia: "(if c < 0 then (0, Some (r / c)) else (r / c, None)) = spec_interval_A c (r / c)"
    by (simp add: spec_interval_A_def)
  have ib: "(if c < 0 then (r / c, None) else (0, Some (r / c))) = spec_interval_B c (r / c)"
    by (simp add: spec_interval_B_def)
  have q: "0 \<le> q / (2 * max_kl)"
    using assms(5) by (simp add: max_kl_def)
  have "0 \<le> ?la" "0 \<le> ?lb"
    using spec_clamp_nonneg [of "sqrt (A / B)" c "r / c"]
      spec_clamp_nonneg [of "sqrt (q / (2 * max_kl))" c "r / c"] assms(4) q
    by simp_all
  with EPS_pos have pos: "?la + EPS \<noteq> 0" "?lb + EPS \<noteq> 0"
    by simp_all
  have kl: "2 * max_kl \<noteq> 0"
    by (simp add: max_kl_def)
  show ?thesis
    unfolding multipliers_def using assms k' q pos kl
    by (simp add: bind_err_eq_Inr fdiv_eq_Inr fsqrt_eq_Inr f_a_eq_Inr f_b_eq_Inr
        Let_def proj_spec_clamp ia ib)
qed

lemma direction_returns:
  assumes "0 \<le> lam" and "length w = length v \<or> length w = 1"
  shows "\<exists>x. direction k lam nu v w = Inr x"
proof -
  from assms(1) EPS_pos have "lam + EPS \<noteq> 0" by simp
  moreover from assms(2) have "\<exists>u. bcast2 (+) v (map (\<lambda>wi. nu * wi) w) = Inr u"
    by (auto simp add: bcast2_def)
  ultimately show ?thesis
    by (auto simp add: direction_def bind_err_eq_Inr fdiv_eq_Inr)
qed






section \<open>Properties of the rollout bookkeeping\<close>
















section \<open>Properties of the environment substrates\<close>





section \<open>Properties of the line search\<close>

lemma tensor_update_eq:
  "tsize p = tsize q \<Longrightarrow> tcontiguous p = tcontiguous q \<Longrightarrow>
   p\<lparr>tdata := d\<rparr> = (q\<lparr>tdata := d\<rparr> :: 'a tensor)"
  by (cases p; cases q) simp

lemma set_params_loop_same_layout:
  "wf_model a \<Longrightarrow> wf_model b \<Longrightarrow> same_layout a b \<Longrightarrow>
   snd (set_params_loop i a v) = snd (set_params_loop i b v) \<and>
   (snd (set_params_loop i a v) = None \<longrightarrow>
      fst (set_params_loop i a v) = fst (set_params_loop i b v))"
proof (induction a arbitrary: b i)
  case Nil
  then show ?case by (simp add: same_layout_def)
next
  case (Cons p a')
  from Cons.prems(3) obtain q b' where b: "b = q # b'"
    by (cases b) (auto simp add: same_layout_def)
  from Cons.prems b have sz: "tsize p = tsize q" and ct: "tcontiguous p = tcontiguous q"
    and lay: "same_layout a' b'"
    and wf: "wf_model a'" "wf_model b'"
    and len: "length (tdata p) = length (tdata q)"
    by (simp_all add: same_layout_def wf_model_def wf_tensor_def)
  show ?case
  proof (cases "tcontiguous p")
    case False
    with ct b show ?thesis by (simp add: view_flat_def)
  next
    case True
    let ?slice = "take (length (tdata p)) (drop i v)"
    show ?thesis
    proof (cases "view ?slice (tsize p)")
      case (Inl e)
      with True ct sz len b show ?thesis by (simp add: view_flat_def)
    next
      case (Inr d)
      from Cons.IH [OF wf lay, of "i + length (tdata p)"]
      have ih: "snd (set_params_loop (i + length (tdata p)) a' v)
            = snd (set_params_loop (i + length (tdata p)) b' v)"
        "snd (set_params_loop (i + length (tdata p)) a' v) = None \<longrightarrow>
           fst (set_params_loop (i + length (tdata p)) a' v)
           = fst (set_params_loop (i + length (tdata p)) b' v)"
        by simp_all
      from sz ct have upd: "p\<lparr>tdata := d\<rparr> = q\<lparr>tdata := d\<rparr>"
        by (rule tensor_update_eq)
      from Inr True ct sz len b ih upd show ?thesis
        by (simp add: view_flat_def split: prod.splits) (metis fst_conv snd_conv)
    qed
  qed
qed

lemma set_params_same_layout:
  assumes "wf_model a" "wf_model b" "same_layout a b"
  shows "(case set_params a v of (a', Some e) \<Rightarrow> Inl e | (a', None) \<Rightarrow> f a')
       = (case set_params b v of (b', Some e) \<Rightarrow> Inl e | (b', None) \<Rightarrow> f b')"
proof -
  from set_params_loop_same_layout [OF assms, of 0 v]
  have "snd (set_params a v) = snd (set_params b v)"
    "snd (set_params a v) = None \<longrightarrow> fst (set_params a v) = fst (set_params b v)"
    by (simp_all add: set_params_def)
  then show ?thesis
    by (cases "set_params a v"; cases "set_params b v") (auto split: option.splits)
qed

lemma set_params_success:
  assumes wf: "wf_model model" and ok: "set_params model v = (model', None)"
  shows "wf_model model' \<and> same_layout model' model \<and> list_all tcontiguous model \<and>
         param_count model \<le> length v \<and>
         concat (map tdata model') = take (param_count model) v"
proof -
  have c: "list_all tcontiguous model"
  proof (rule ccontr)
    assume "\<not> list_all tcontiguous model"
    from set_params_loop_noncontiguous [OF this, of 0 v] ok show False
      by (auto simp add: set_params_def)
  qed
  have le: "param_count model \<le> length v"
  proof (rule ccontr)
    assume "\<not> param_count model \<le> length v"
    then have "length v < 0 + param_count model" by simp
    from set_params_loop_short [OF wf c _ this] ok show False
      by (simp add: set_params_def)
  qed
  from le have "0 + param_count model \<le> length v" by simp
  from set_params_loop_long [OF wf c this ok [unfolded set_params_def]] c le
  show ?thesis by (simp add: same_layout_def)
qed

lemma same_layout_refl: "same_layout a a"
  by (simp add: same_layout_def)

lemma same_layout_trans: "same_layout a b \<Longrightarrow> same_layout b c \<Longrightarrow> same_layout a c"
  by (simp add: same_layout_def)

lemma set_and_eval_same_layout:
  assumes "wf_model a" "wf_model b" "same_layout a b"
  shows "set_and_eval ctx e a = set_and_eval ctx e b"
  unfolding set_and_eval_def
  using set_params_same_layout [OF assms] by (auto simp add: bind_err_def split: sum.splits)

lemma set_and_eval_Inr:
  assumes wf: "wf_model a" and r: "set_and_eval ctx e a = Inr (ok, a1)"
  shows "wf_model a1 \<and> same_layout a1 a \<and>
         (\<exists>new_policy kl_value pi_l_new surr_cost.
            bcast2 (-) (sc_current_policy ctx) (map (\<lambda>d. e * d) (sc_x ctx)) = Inr new_policy \<and>
            set_params a new_policy = (a1, None) \<and>
            trial_values ctx a1 = Inr (kl_value, pi_l_new, surr_cost) \<and>
            0 \<le> kl_value \<and>
            ok = (kl_value \<le> max_kl \<and>
                  (sc_optim_case ctx > 1 \<longrightarrow> pi_l_new \<ge> sc_surrogate_loss ctx) \<and>
                  surr_cost - sc_surrogate_cost_loss ctx \<le> max (- sc_c ctx) 0))"
proof -
  from r obtain new_policy where np: "bcast2 (-) (sc_current_policy ctx) (map (\<lambda>d. e * d) (sc_x ctx)) = Inr new_policy"
    and rest: "(case set_params a new_policy of
         (actor', Some e) \<Rightarrow> Inl e
       | (actor', None) \<Rightarrow>
           bind_err (trial_values ctx actor') (\<lambda>t. Inr (accept ctx t, actor'))) = Inr (ok, a1)"
    by (auto simp add: set_and_eval_def bind_err_eq_Inr)
  obtain a' r' where sp: "set_params a new_policy = (a', r')"
    by (cases "set_params a new_policy")
  with rest have none: "r' = None" by (cases r') auto
  with rest sp obtain t where t: "trial_values ctx a' = Inr t" and ok: "ok = accept ctx t"
    and a1: "a1 = a'"
    by (auto simp add: bind_err_eq_Inr)
  obtain kl_value pi_l_new surr_cost where tv: "t = (kl_value, pi_l_new, surr_cost)"
    by (cases t)
  from t tv have kl: "0 \<le> kl_value"
    by (auto simp add: trial_values_def bind_err_eq_Inr Let_def split: if_splits)
  from set_params_success [OF wf sp [unfolded none]] have "wf_model a'" "same_layout a' a"
    by simp_all
  with np sp none t tv ok a1 kl show ?thesis
    by (auto simp add: accept_def)
qed

lemma candidates:
  "pi_linear_search_list
     = [9 / 900, 8 / 900, 7 / 900, 6 / 900, 5 / 900, 4 / 900, 3 / 900, 2 / 900, 1 / 900, 0]"
  by (simp add: pi_linear_search_list_def upt_rec)


lemma search_loop_char:
  assumes wf0: "wf_model actor"
  shows "wf_model a \<Longrightarrow> same_layout a actor \<Longrightarrow> search_loop ctx es a = Inr (found, a') \<Longrightarrow>
     wf_model a' \<and> same_layout a' actor \<and>
     (case found of
        Some e \<Rightarrow>
          (\<exists>pre post. es = pre @ e # post \<and>
             (\<forall>e' \<in> set pre. \<exists>a1. set_and_eval ctx e' actor = Inr (False, a1)) \<and>
             set_and_eval ctx e actor = Inr (True, a'))
      | None \<Rightarrow>
          (\<forall>e' \<in> set es. \<exists>a1. set_and_eval ctx e' actor = Inr (False, a1)) \<and>
          (es = [] \<longrightarrow> a' = a))"
proof (induction es arbitrary: a)
  case Nil
  then show ?case by simp
next
  case (Cons e es)
  have same: "set_and_eval ctx e a = set_and_eval ctx e actor"
    using Cons.prems(1) wf0 Cons.prems(2) by (rule set_and_eval_same_layout)
  from Cons.prems(3) obtain ok a1 where r: "set_and_eval ctx e a = Inr (ok, a1)"
    by (auto split: sum.splits)
  from set_and_eval_Inr [OF Cons.prems(1) r] have wf1: "wf_model a1" and l1: "same_layout a1 a"
    by simp_all
  from l1 Cons.prems(2) have la: "same_layout a1 actor"
    by (rule same_layout_trans)
  show ?case
  proof (cases ok)
    case True
    with Cons.prems(3) r have "found = Some e" "a' = a1" by simp_all
    moreover from r same True have "set_and_eval ctx e actor = Inr (True, a1)" by simp
    ultimately have "wf_model a'" "same_layout a' actor"
      "e # es = [] @ e # es \<and>
         (\<forall>e' \<in> set []. \<exists>a1. set_and_eval ctx e' actor = Inr (False, a1)) \<and>
         set_and_eval ctx e actor = Inr (True, a')"
      using wf1 la by simp_all
    with \<open>found = Some e\<close> show ?thesis
      by (simp only: option.case) blast
  next
    case False
    with Cons.prems(3) r have rec: "search_loop ctx es a1 = Inr (found, a')" by simp
    from r same False have rej: "set_and_eval ctx e actor = Inr (False, a1)" by simp
    from Cons.IH [OF wf1 la rec] have ih: "wf_model a'" "same_layout a' actor"
      "(case found of
        Some e \<Rightarrow>
          (\<exists>pre post. es = pre @ e # post \<and>
             (\<forall>e' \<in> set pre. \<exists>a1. set_and_eval ctx e' actor = Inr (False, a1)) \<and>
             set_and_eval ctx e actor = Inr (True, a'))
      | None \<Rightarrow>
          (\<forall>e' \<in> set es. \<exists>a1. set_and_eval ctx e' actor = Inr (False, a1)) \<and>
          (es = [] \<longrightarrow> a' = a1))"
      by simp_all
    show ?thesis
    proof (cases found)
      case None
      with ih rej show ?thesis by auto
    next
      case (Some e2)
      with ih(3) obtain pre post where es: "es = pre @ e2 # post"
        and pre: "\<forall>e' \<in> set pre. \<exists>a1. set_and_eval ctx e' actor = Inr (False, a1)"
        and acc: "set_and_eval ctx e2 actor = Inr (True, a')"
        by auto
      from es have "e # es = (e # pre) @ e2 # post" by simp
      moreover from pre rej have "\<forall>e' \<in> set (e # pre). \<exists>a1. set_and_eval ctx e' actor = Inr (False, a1)"
        by auto
      ultimately have "e # es = (e # pre) @ e2 # post \<and>
         (\<forall>e' \<in> set (e # pre). \<exists>a1. set_and_eval ctx e' actor = Inr (False, a1)) \<and>
         set_and_eval ctx e2 actor = Inr (True, a')"
        using acc by simp
      with Some ih(1,2) show ?thesis
        by (simp only: option.case) blast
    qed
  qed
qed








lemma search_loop_returns:
  assumes wf0: "wf_model actor"
  shows "wf_model a \<Longrightarrow> same_layout a actor \<Longrightarrow>
     \<forall>e \<in> set es. \<exists>ok a1. set_and_eval ctx e actor = Inr (ok, a1) \<Longrightarrow>
     \<exists>found a'. search_loop ctx es a = Inr (found, a')"
proof (induction es arbitrary: a)
  case Nil
  then show ?case by simp
next
  case (Cons e es)
  have same: "set_and_eval ctx e a = set_and_eval ctx e actor"
    using Cons.prems(1) wf0 Cons.prems(2) by (rule set_and_eval_same_layout)
  from Cons.prems(3) obtain ok a1 where r: "set_and_eval ctx e actor = Inr (ok, a1)"
    by auto
  with same have r': "set_and_eval ctx e a = Inr (ok, a1)" by simp
  from set_and_eval_Inr [OF Cons.prems(1) r'] have wf1: "wf_model a1" and l1: "same_layout a1 a"
    by simp_all
  from l1 Cons.prems(2) have la: "same_layout a1 actor" by (rule same_layout_trans)
  from Cons.prems(3) have "\<forall>e \<in> set es. \<exists>ok a1. set_and_eval ctx e actor = Inr (ok, a1)"
    by simp
  from Cons.IH [OF wf1 la this] obtain found a' where "search_loop ctx es a1 = Inr (found, a')"
    by blast
  with r' show ?case by (cases ok) simp_all
qed

text \<open>The search returns whenever no candidate's trial raises.\<close>

lemma line_search_returns:
  assumes wf: "wf_model actor"
    and all: "\<forall>e \<in> set pi_linear_search_list. \<exists>ok a. set_and_eval ctx e actor = Inr (ok, a)"
  shows "\<exists>step_len actor'. line_search ctx actor = Inr (step_len, actor')"
proof -
  from search_loop_returns [OF wf wf same_layout_refl all] obtain found actor1
    where sl: "search_loop ctx pi_linear_search_list actor = Inr (found, actor1)"
    by blast
  note ch = search_loop_char [OF wf wf same_layout_refl sl]
  then have wf1: "wf_model actor1" and l1: "same_layout actor1 actor" by simp_all
  let ?step = "case found of None \<Rightarrow> 0 | Some e \<Rightarrow> e"
  have "?step \<in> set pi_linear_search_list"
  proof (cases found)
    case None
    then show ?thesis by (simp add: candidates)
  next
    case (Some e)
    with ch obtain pre post where split: "pi_linear_search_list = pre @ e # post" by auto
    have "e \<in> set pi_linear_search_list" unfolding split by simp
    with Some show ?thesis by simp
  qed
  with all obtain ok a where "set_and_eval ctx ?step actor = Inr (ok, a)" by blast
  from set_and_eval_Inr [OF wf this] obtain new_policy
    where np: "bcast2 (-) (sc_current_policy ctx) (map (\<lambda>d. ?step * d) (sc_x ctx)) = Inr new_policy"
      and sp: "set_params actor new_policy = (a, None)"
    by blast
  from set_params_same_layout [OF wf1 wf l1, of "\<lambda>a. Inr (?step, a)" new_policy] sp
  have "(case set_params actor1 new_policy of
           (actor2, Some e) \<Rightarrow> Inl e
         | (actor2, None) \<Rightarrow> Inr (?step, actor2)) = Inr (?step, a)"
    by simp
  with sl np show ?thesis
    by (simp add: line_search_def Let_def)
qed

















end
